theory Spec2Isabelle
  imports Complex_Main "HOL-Library.Code_Target_Nat"
begin

section \<open>Data model\<close>

text \<open>
  A shallow embedding of \<^verbatim>\<open>src/mega.py\<close>: the transfer pipeline \<^verbatim>\<open>download_file\<close>,
  the chunk splitter \<^verbatim>\<open>split_and_upload\<close> and the progress monitor
  \<^verbatim>\<open>update_progress\<close>.

  Bytes are \<^typ>\<open>char\<close> (8 bits), a file's content is a \<^typ>\<open>char list\<close>. Python
  strings are modelled by their UTF-8 bytes. A path is the list of its components:
  \<^verbatim>\<open>"downloads/"\<close> is \<open>[''downloads'']\<close>, \<^verbatim>\<open>os.path.join(p, n)\<close> is \<open>p @ [n]\<close>.
\<close>

type_synonym bytes = "char list"
type_synonym path = "string list"

text \<open>The file system: regular files with their content, and the directories. Both are
  kept as lists, whose order is the order in which a directory scan reports the entries.\<close>

record filesystem =
  files :: "(path \<times> bytes) list"
  dirs :: "path list"

text \<open>Exceptions. \<open>str_of\<close> is \<^verbatim>\<open>str(e)\<close>, the text that the handler of
  \<^verbatim>\<open>download_file\<close> reports.\<close>

datatype error =
    FileNotFoundError path
  | FileExistsError path
  | IsADirectoryError path
  | NotADirectoryError path
  | DirectoryNotEmpty path
  | BadZipFile string
  | DownloadFailure string
  | ExpandFailure string
  | UploadFailure string

text \<open>The texts the bot sends as replies and status-message edits.\<close>

datatype status_text =
    No_valid_link
  | Folder_unsupported
  | Starting_download
  | Splitting_notice
  | Uploading_extracted
  | Uploading_file
  | Progress string real nat nat
  | Task_completed real
  | Error_occurred string

text \<open>What a job does, in the order it does it.\<close>

datatype event =
    Reply status_text
  | EditText status_text
  | EditFailed status_text
  | LogWarning
  | LogError string
  | Wrote path bytes
  | Sent path string bytes
  | SendFailed path string
  | Removed path
  | RemovedDir path
  | Sleep

record state =
  fs :: filesystem
  trace :: "event list"

text \<open>A step of the program either raises (\<open>Inl\<close>, with the state reached when it
  raised) or returns the new state.\<close>

type_synonym result = "(error \<times> state) + state"

datatype member = Member_file path bytes | Member_dir path

text \<open>
  The collaborators that are not part of the repository:
  \<^item> \<open>env_download link\<close>: \<^verbatim>\<open>mega_client.download_url\<close>; the text of the exception it
    raises, or the name and the content of the file it stores under \<^verbatim>\<open>downloads/\<close>;
  \<^item> \<open>env_unzip content\<close>: \<^verbatim>\<open>ZipFile(file_path).extractall\<close>; the members it writes,
    in order, and the text of the exception that stops it, if any;
  \<^item> \<open>env_send_raises trace path caption\<close>: \<^verbatim>\<open>client.send_document\<close>; the text of the
    exception it raises, if any. It may depend on everything the job did so far;
  \<^item> \<open>env_edit_raises n\<close>: whether the status edit of the monitor's \<open>n\<close>-th poll raises;
  \<^item> \<open>env_elapsed\<close>: the difference of the two \<^verbatim>\<open>time.time()\<close> readings.
  Exceptions of the replies and status edits outside the monitor are not modelled: those
  calls are recorded as events.
\<close>

record env =
  env_download :: "string \<Rightarrow> string + (string \<times> bytes)"
  env_unzip :: "bytes \<Rightarrow> member list \<times> string option"
  env_send_raises :: "event list \<Rightarrow> path \<Rightarrow> string \<Rightarrow> string option"
  env_edit_raises :: "nat \<Rightarrow> bool"
  env_elapsed :: real

section \<open>Strings\<close>

text \<open>\<^verbatim>\<open>str(n)\<close> of a non-negative integer.\<close>

definition digit :: "nat \<Rightarrow> char" where
  "digit d = char_of (48 + d)"

fun str_nat :: "nat \<Rightarrow> string" where
  "str_nat n = (if n < 10 then [digit n] else str_nat (n div 10) @ [digit (n mod 10)])"

declare str_nat.simps [simp del]

fun str_path :: "path \<Rightarrow> string" where
  "str_path [] = []"
| "str_path [n] = n"
| "str_path (n # ns) = n @ ''/'' @ str_path ns"

fun str_of :: "error \<Rightarrow> string" where
  "str_of (FileNotFoundError p) = ''[Errno 2] No such file or directory: '' @ str_path p"
| "str_of (FileExistsError p) = ''[Errno 17] File exists: '' @ str_path p"
| "str_of (IsADirectoryError p) = ''[Errno 21] Is a directory: '' @ str_path p"
| "str_of (NotADirectoryError p) = ''[Errno 20] Not a directory: '' @ str_path p"
| "str_of (DirectoryNotEmpty p) = ''[Errno 39] Directory not empty: '' @ str_path p"
| "str_of (BadZipFile m) = m"
| "str_of (DownloadFailure m) = m"
| "str_of (ExpandFailure m) = m"
| "str_of (UploadFailure m) = m"

text \<open>\<^verbatim>\<open>os.path.basename\<close>, and \<^verbatim>\<open>f"{file_path}{suffix}"\<close>, which extends the last
  component.\<close>

definition basename :: "path \<Rightarrow> string" where
  "basename p = (if p = [] then [] else last p)"

definition with_suffix :: "path \<Rightarrow> string \<Rightarrow> path" where
  "with_suffix p s = (if p = [] then [s] else butlast p @ [last p @ s])"

section \<open>File system operations\<close>

definition is_file :: "filesystem \<Rightarrow> path \<Rightarrow> bool" where
  "is_file f p = (map_of (files f) p \<noteq> None)"

text \<open>The working directory \<open>[]\<close> always exists.\<close>

definition is_dir :: "filesystem \<Rightarrow> path \<Rightarrow> bool" where
  "is_dir f p = (p = [] \<or> p \<in> set (dirs f))"

definition exists_path :: "filesystem \<Rightarrow> path \<Rightarrow> bool" where
  "exists_path f p = (is_file f p \<or> is_dir f p)"

definition parent :: "path \<Rightarrow> path" where
  "parent p = butlast p"

text \<open>\<^verbatim>\<open>open(p, 'rb').read()\<close>.\<close>

definition read_file :: "filesystem \<Rightarrow> path \<Rightarrow> error + bytes" where
  "read_file f p =
     (case map_of (files f) p of
        Some d \<Rightarrow> Inr d
      | None \<Rightarrow> if is_dir f p then Inl (IsADirectoryError p) else Inl (FileNotFoundError p))"

text \<open>\<^verbatim>\<open>os.path.getsize\<close> of a regular file. (The size the operating system reports for
  a directory is not modelled; the program asks only for the file it fetched.)\<close>

definition getsize :: "filesystem \<Rightarrow> path \<Rightarrow> error + nat" where
  "getsize f p =
     (case map_of (files f) p of
        Some d \<Rightarrow> Inr (length d)
      | None \<Rightarrow> Inl (FileNotFoundError p))"

fun update_file :: "path \<Rightarrow> bytes \<Rightarrow> (path \<times> bytes) list \<Rightarrow> (path \<times> bytes) list" where
  "update_file p d [] = [(p, d)]"
| "update_file p d ((q, e) # r) = (if q = p then (p, d) # r else (q, e) # update_file p d r)"

text \<open>\<^verbatim>\<open>open(p, 'wb')\<close>, \<^verbatim>\<open>write(d)\<close> and close.\<close>

definition write_file :: "path \<Rightarrow> bytes \<Rightarrow> state \<Rightarrow> result" where
  "write_file p d st =
     (if is_dir (fs st) p then Inl (IsADirectoryError p, st)
      else if \<not> is_dir (fs st) (parent p) then Inl (FileNotFoundError p, st)
      else Inr (st\<lparr>fs := (fs st)\<lparr>files := update_file p d (files (fs st))\<rparr>,
                    trace := trace st @ [Wrote p d]\<rparr>))"

text \<open>\<^verbatim>\<open>os.remove\<close>.\<close>

definition os_remove :: "path \<Rightarrow> state \<Rightarrow> result" where
  "os_remove p st =
     (if is_file (fs st) p
      then Inr (st\<lparr>fs := (fs st)\<lparr>files := filter (\<lambda>(q, d). q \<noteq> p) (files (fs st))\<rparr>,
                     trace := trace st @ [Removed p]\<rparr>)
      else if is_dir (fs st) p then Inl (IsADirectoryError p, st)
      else Inl (FileNotFoundError p, st))"

text \<open>The names a scan of directory \<open>dir\<close> reports: regular files, and directories.\<close>

definition listdir_files :: "filesystem \<Rightarrow> path \<Rightarrow> string list" where
  "listdir_files f dir = map (last \<circ> fst) (filter (\<lambda>(p, d). p \<noteq> [] \<and> butlast p = dir) (files f))"

definition listdir_dirs :: "filesystem \<Rightarrow> path \<Rightarrow> string list" where
  "listdir_dirs f dir = map last (filter (\<lambda>p. p \<noteq> [] \<and> butlast p = dir) (dirs f))"

text \<open>\<^verbatim>\<open>os.rmdir\<close>: only an empty directory is removed.\<close>

definition os_rmdir :: "path \<Rightarrow> state \<Rightarrow> result" where
  "os_rmdir p st =
     (if \<not> is_dir (fs st) p then
        (if is_file (fs st) p then Inl (NotADirectoryError p, st)
         else Inl (FileNotFoundError p, st))
      else if listdir_files (fs st) p \<noteq> [] \<or> listdir_dirs (fs st) p \<noteq> []
        then Inl (DirectoryNotEmpty p, st)
      else Inr (st\<lparr>fs := (fs st)\<lparr>dirs := filter (\<lambda>q. q \<noteq> p) (dirs (fs st))\<rparr>,
                     trace := trace st @ [RemovedDir p]\<rparr>))"

text \<open>\<^verbatim>\<open>os.makedirs(p, exist_ok=True)\<close>: every missing directory on the way to \<open>p\<close> is
  created, outermost first; a regular file on the way raises.\<close>

fun prefixes_of :: "path \<Rightarrow> path list" where
  "prefixes_of [] = []"
| "prefixes_of (n # ns) = [n] # map ((#) n) (prefixes_of ns)"

fun mkdirs :: "path list \<Rightarrow> filesystem \<Rightarrow> error + filesystem" where
  "mkdirs [] f = Inr f"
| "mkdirs (q # qs) f =
     (if is_file f q then Inl (FileExistsError q)
      else if is_dir f q then mkdirs qs f
      else mkdirs qs (f\<lparr>dirs := dirs f @ [q]\<rparr>))"

definition makedirs :: "path \<Rightarrow> state \<Rightarrow> result" where
  "makedirs p st =
     (case mkdirs (prefixes_of p) (fs st) of
        Inl e \<Rightarrow> Inl (e, st)
      | Inr f \<Rightarrow> Inr (st\<lparr>fs := f\<rparr>))"


section \<open>Uploading\<close>

text \<open>\<^verbatim>\<open>client.send_document(chat_id, document=p, caption=c)\<close>: the document is read from
  the file system and sent; the transport may raise.\<close>

definition send_document :: "env \<Rightarrow> path \<Rightarrow> string \<Rightarrow> state \<Rightarrow> result" where
  "send_document env p caption st =
     (case read_file (fs st) p of
        Inl e \<Rightarrow> Inl (e, st)
      | Inr d \<Rightarrow>
          (case env_send_raises env (trace st) p caption of
             Some m \<Rightarrow> Inl (UploadFailure m, st\<lparr>trace := trace st @ [SendFailed p caption]\<rparr>)
           | None \<Rightarrow> Inr (st\<lparr>trace := trace st @ [Sent p caption d]\<rparr>)))"

section \<open>The chunk splitter\<close>

text \<open>\<^verbatim>\<open>chunk_size = 2 * 1024 * 1024 * 1024\<close>\<close>

definition chunk_size :: nat where
  "chunk_size = 2 * 1024 * 1024 * 1024"

text \<open>\<^verbatim>\<open>f"Part {chunk_index + 1}/{(file_size // chunk_size) + 1} of {base_name}"\<close>\<close>

definition part_caption :: "nat \<Rightarrow> nat \<Rightarrow> nat \<Rightarrow> string \<Rightarrow> string" where
  "part_caption c chunk_index file_size base_name =
     ''Part '' @ str_nat (chunk_index + 1) @ ''/'' @ str_nat (file_size div c + 1)
       @ '' of '' @ base_name"

text \<open>\<^verbatim>\<open>f"{file_path}.part{chunk_index}"\<close>\<close>

definition part_path :: "path \<Rightarrow> nat \<Rightarrow> path" where
  "part_path file_path chunk_index = with_suffix file_path (''.part'' @ str_nat chunk_index)"

text \<open>
  The \<^verbatim>\<open>while True\<close> loop of \<^verbatim>\<open>split_and_upload\<close>. \<open>rest\<close> is what the open file
  \<^verbatim>\<open>f\<close> has not yet delivered: \<^verbatim>\<open>f.read(c)\<close> returns \<open>take c rest\<close> and leaves
  \<open>drop c rest\<close>. (The chunk files have other names than the file being read, so
  writing and removing them does not change what \<^verbatim>\<open>f\<close> delivers.) The source fixes
  \<open>c = chunk_size\<close>; the loop is written for any \<open>c\<close>.
\<close>

function split_loop ::
  "env \<Rightarrow> nat \<Rightarrow> path \<Rightarrow> nat \<Rightarrow> string \<Rightarrow> bytes \<Rightarrow> nat \<Rightarrow> state \<Rightarrow> result" where
  "split_loop env c file_path file_size base_name rest chunk_index st =
     (if take c rest = [] then Inr st
      else
        (case write_file (part_path file_path chunk_index) (take c rest) st of
           Inl e \<Rightarrow> Inl e
         | Inr st1 \<Rightarrow>
             (case send_document env (part_path file_path chunk_index)
                     (part_caption c chunk_index file_size base_name) st1 of
                Inl e \<Rightarrow> Inl e
              | Inr st2 \<Rightarrow>
                  (case os_remove (part_path file_path chunk_index) st2 of
                     Inl e \<Rightarrow> Inl e
                   | Inr st3 \<Rightarrow>
                       split_loop env c file_path file_size base_name (drop c rest)
                         (chunk_index + 1) st3))))"
  by pat_completeness auto
termination
  by (relation "measure (\<lambda>(env, c, file_path, file_size, base_name, rest, chunk_index, st). length rest)")
    auto

declare split_loop.simps [simp del]

definition split_with :: "nat \<Rightarrow> env \<Rightarrow> path \<Rightarrow> state \<Rightarrow> result" where
  "split_with c env file_path st =
     (case getsize (fs st) file_path of
        Inl e \<Rightarrow> Inl (e, st)
      | Inr file_size \<Rightarrow>
          (case read_file (fs st) file_path of
             Inl e \<Rightarrow> Inl (e, st\<lparr>trace := trace st @ [EditText Splitting_notice]\<rparr>)
           | Inr content \<Rightarrow>
               split_loop env c file_path file_size (basename file_path) content 0
                 (st\<lparr>trace := trace st @ [EditText Splitting_notice]\<rparr>)))"

definition split_and_upload :: "env \<Rightarrow> path \<Rightarrow> state \<Rightarrow> result" where
  "split_and_upload = split_with chunk_size"

text \<open>The chunks that the loop reads from a file with content \<open>rest\<close>.\<close>

function read_chunks :: "nat \<Rightarrow> bytes \<Rightarrow> bytes list" where
  "read_chunks c rest =
     (if take c rest = [] then [] else take c rest # read_chunks c (drop c rest))"
  by pat_completeness auto
termination
  by (relation "measure (\<lambda>(c, rest). length rest)") auto

declare read_chunks.simps [simp del]

section \<open>Reading the trace\<close>

definition final_state :: "result \<Rightarrow> state" where
  "final_state r = (case r of Inl (e, st) \<Rightarrow> st | Inr st \<Rightarrow> st)"

text \<open>The events of a run from \<open>st\<close> to \<open>st'\<close>.\<close>

definition new_events :: "state \<Rightarrow> state \<Rightarrow> event list" where
  "new_events st st' = drop (length (trace st)) (trace st')"

fun sent_payloads :: "event list \<Rightarrow> bytes list" where
  "sent_payloads [] = []"
| "sent_payloads (Sent p c d # es) = d # sent_payloads es"
| "sent_payloads (e # es) = sent_payloads es"

fun sent_captions :: "event list \<Rightarrow> string list" where
  "sent_captions [] = []"
| "sent_captions (Sent p c d # es) = c # sent_captions es"
| "sent_captions (e # es) = sent_captions es"

fun sent_paths :: "event list \<Rightarrow> path list" where
  "sent_paths [] = []"
| "sent_paths (Sent p c d # es) = p # sent_paths es"
| "sent_paths (e # es) = sent_paths es"

section \<open>The progress monitor\<close>

text \<open>
  \<^verbatim>\<open>update_progress\<close> watches a file that something else may be writing. What it sees is
  given by \<open>obs\<close>: its \<open>q\<close>-th look at the file system finds the file with size
  \<open>obs q\<close>, or finds no file (\<open>None\<close>). Look \<open>0\<close> is the \<^verbatim>\<open>getsize\<close> before the loop;
  every round of the loop looks twice (\<^verbatim>\<open>os.path.exists\<close>, then \<^verbatim>\<open>getsize\<close>).

  The percentage is the exact quotient; Python rounds it to a float, which is exact
  whenever the two sizes are equal.
\<close>

definition progress_percentage :: "nat \<Rightarrow> nat \<Rightarrow> real" where
  "progress_percentage current_size file_size =
     (if file_size > 0 then (real current_size / real file_size) * 100 else 0)"

definition progress_text :: "string \<Rightarrow> nat \<Rightarrow> nat \<Rightarrow> status_text" where
  "progress_text task_type current_size file_size =
     Progress task_type (progress_percentage current_size file_size)
       (current_size div (1024 * 1024)) (file_size div (1024 * 1024))"

text \<open>\<^verbatim>\<open>try: await message.edit_text(...) except Exception: logger.warning(...)\<close>\<close>

definition edit_swallowed :: "env \<Rightarrow> nat \<Rightarrow> status_text \<Rightarrow> event list" where
  "edit_swallowed env n t = (if env_edit_raises env n then [EditFailed t, LogWarning] else [EditText t])"

text \<open>The \<^verbatim>\<open>while os.path.exists(file_path)\<close> loop: \<open>q\<close> counts the looks, \<open>n\<close> the
  rounds, \<open>evs\<close> collects the events. The loop need not end, so its result is an option.\<close>

partial_function (option) progress_loop ::
  "env \<Rightarrow> (nat \<Rightarrow> nat option) \<Rightarrow> path \<Rightarrow> string \<Rightarrow> nat \<Rightarrow> nat \<Rightarrow> nat \<Rightarrow> event list
     \<Rightarrow> (error option \<times> event list) option" where
  "progress_loop env obs file_path task_type file_size q n evs =
     (case obs q of
        None \<Rightarrow> Some (None, evs)
      | Some s \<Rightarrow>
          (case obs (q + 1) of
             None \<Rightarrow> Some (Some (FileNotFoundError file_path), evs)
           | Some current_size \<Rightarrow>
               if current_size \<ge> file_size
               then Some (None,
                      evs @ edit_swallowed env n (progress_text task_type current_size file_size))
               else progress_loop env obs file_path task_type file_size (q + 2) (n + 1)
                      (evs @ edit_swallowed env n (progress_text task_type current_size file_size)
                           @ [Sleep])))"

declare progress_loop.simps [code]

definition update_progress ::
  "env \<Rightarrow> (nat \<Rightarrow> nat option) \<Rightarrow> path \<Rightarrow> string \<Rightarrow> (error option \<times> event list) option" where
  "update_progress env obs file_path task_type =
     (case obs 0 of
        None \<Rightarrow> Some (Some (FileNotFoundError file_path), [])
      | Some file_size \<Rightarrow> progress_loop env obs file_path task_type file_size 1 0 [])"

text \<open>What a look at a file system that nobody changes finds.\<close>

definition observe :: "filesystem \<Rightarrow> path \<Rightarrow> nat option" where
  "observe f p = (case getsize f p of Inl e \<Rightarrow> None | Inr n \<Rightarrow> Some n)"

section \<open>The link\<close>

text \<open>
  \<^verbatim>\<open>re.search(r"https://mega\.nz/(file|folder)/[A-Za-z0-9_-]+(?:#[A-Za-z0-9_-]+)?", text)\<close>.
  \<open>match_here\<close> matches the pattern at the start of a string and returns group 1 and
  group 0; \<open>re_search\<close> tries every start position from the left.
\<close>

definition idchar :: "char \<Rightarrow> bool" where
  "idchar c =
     ((65 \<le> (of_char c :: nat) \<and> (of_char c :: nat) \<le> 90)
      \<or> (97 \<le> (of_char c :: nat) \<and> (of_char c :: nat) \<le> 122)
      \<or> (48 \<le> (of_char c :: nat) \<and> (of_char c :: nat) \<le> 57)
      \<or> c = CHR ''_'' \<or> c = CHR ''-'')"

definition strip_prefix :: "string \<Rightarrow> string \<Rightarrow> string option" where
  "strip_prefix p s = (if take (length p) s = p then Some (drop (length p) s) else None)"

definition match_kind :: "string \<Rightarrow> (string \<times> string) option" where
  "match_kind s =
     (case strip_prefix ''file'' s of
        Some r \<Rightarrow> Some (''file'', r)
      | None \<Rightarrow>
          (case strip_prefix ''folder'' s of
             Some r \<Rightarrow> Some (''folder'', r)
           | None \<Rightarrow> None))"

definition match_key :: "string \<Rightarrow> string" where
  "match_key s =
     (case s of
        [] \<Rightarrow> []
      | c # r \<Rightarrow> if c = CHR ''#'' \<and> takeWhile idchar r \<noteq> [] then c # takeWhile idchar r else [])"

definition match_here :: "string \<Rightarrow> (string \<times> string) option" where
  "match_here s =
     (case strip_prefix ''https://mega.nz/'' s of
        None \<Rightarrow> None
      | Some r1 \<Rightarrow>
          (case match_kind r1 of
             None \<Rightarrow> None
           | Some (kind, r2) \<Rightarrow>
               (case strip_prefix ''/'' r2 of
                  None \<Rightarrow> None
                | Some r3 \<Rightarrow>
                    if takeWhile idchar r3 = [] then None
                    else Some (kind, ''https://mega.nz/'' @ kind @ ''/'' @ takeWhile idchar r3
                                 @ match_key (dropWhile idchar r3)))))"

fun re_search :: "string \<Rightarrow> (string \<times> string) option" where
  "re_search [] = match_here []"
| "re_search (c # cs) =
     (case match_here (c # cs) of Some m \<Rightarrow> Some m | None \<Rightarrow> re_search cs)"

text \<open>\<^verbatim>\<open>p in s\<close> for strings.\<close>

fun is_substring :: "string \<Rightarrow> string \<Rightarrow> bool" where
  "is_substring p [] = (p = [])"
| "is_substring p (c # cs) = (take (length p) (c # cs) = p \<or> is_substring p cs)"

section \<open>Classification\<close>

text \<open>
  \<^verbatim>\<open>zipfile.is_zipfile(file_path)\<close> of the Python standard library (\<^verbatim>\<open>Lib/zipfile.py\<close>,
  CPython 3.11), which line 173 of \<^verbatim>\<open>mega.py\<close> calls: it opens the file and looks for
  the "end of central directory" record \<^emph>\<open>at the end\<close> of the file
  (\<^verbatim>\<open>_EndRecData\<close>); an \<^verbatim>\<open>OSError\<close> gives \<^verbatim>\<open>False\<close>, while the \<^verbatim>\<open>BadZipFile\<close> that
  \<^verbatim>\<open>_EndRecData64\<close> raises for a multi-disk ZIP64 locator is not caught.
\<close>

definition sizeEndCentDir :: nat where
  "sizeEndCentDir = 22"

definition stringEndArchive :: bytes where
  "stringEndArchive = [CHR ''P'', CHR ''K'', CHR 0x05, CHR 0x06]"

definition sizeEndCentDir64Locator :: nat where
  "sizeEndCentDir64Locator = 20"

definition stringEndArchive64Locator :: bytes where
  "stringEndArchive64Locator = [CHR ''P'', CHR ''K'', CHR 0x06, CHR 0x07]"

text \<open>\<^verbatim>\<open>struct.unpack\<close> of a little-endian unsigned integer.\<close>

fun le_uint :: "bytes \<Rightarrow> nat" where
  "le_uint [] = 0"
| "le_uint (b # bs) = of_char b + 256 * le_uint bs"

text \<open>\<^verbatim>\<open>data.rfind(p)\<close>: the last position at which \<open>p\<close> occurs.\<close>

definition rfind :: "bytes \<Rightarrow> bytes \<Rightarrow> nat option" where
  "rfind p d =
     (case filter (\<lambda>i. take (length p) (drop i d) = p) (rev [0 ..< Suc (length d)]) of
        [] \<Rightarrow> None
      | i # r \<Rightarrow> Some i)"

text \<open>
  \<^verbatim>\<open>_EndRecData64(fpin, offset, endrec)\<close>, where the record found starts \<open>back\<close> bytes
  before the end of the file (\<^verbatim>\<open>offset = -back\<close>). In every case in which it returns,
  it returns the (non-empty) \<^verbatim>\<open>endrec\<close>; the result here is whether it raises.
\<close>

definition EndRecData64_raises :: "bytes \<Rightarrow> nat \<Rightarrow> bool" where
  "EndRecData64_raises d back =
     (if length d < back + sizeEndCentDir64Locator then False
      else
        (let loc = take sizeEndCentDir64Locator
                     (drop (length d - back - sizeEndCentDir64Locator) d)
         in if take 4 loc \<noteq> stringEndArchive64Locator then False
            else le_uint (take 4 (drop 4 loc)) \<noteq> 0 \<or> le_uint (take 4 (drop 16 loc)) > 1))"

text \<open>\<^verbatim>\<open>_EndRecData(fpin)\<close>: \<open>Inr True\<close> when it returns a record, \<open>Inr False\<close> when it
  returns \<^verbatim>\<open>None\<close>, \<open>Inl\<close> when \<^verbatim>\<open>BadZipFile\<close> is raised.\<close>

definition EndRecData :: "bytes \<Rightarrow> error + bool" where
  "EndRecData d =
     (if length d < sizeEndCentDir then Inr False
      else if take 4 (drop (length d - sizeEndCentDir) d) = stringEndArchive
              \<and> drop (length d - 2) d = [CHR 0x00, CHR 0x00]
      then (if EndRecData64_raises d sizeEndCentDir
            then Inl (BadZipFile ''zipfiles that span multiple disks are not supported'')
            else Inr True)
      else
        (let maxCommentStart = length d - 2 ^ 16 - sizeEndCentDir;
             tl_data = drop maxCommentStart d
         in case rfind stringEndArchive tl_data of
              None \<Rightarrow> Inr False
            | Some start \<Rightarrow>
                if length (take sizeEndCentDir (drop start tl_data)) \<noteq> sizeEndCentDir
                then Inr False
                else if EndRecData64_raises d (length d - (maxCommentStart + start))
                then Inl (BadZipFile ''zipfiles that span multiple disks are not supported'')
                else Inr True))"

definition is_zipfile :: "filesystem \<Rightarrow> path \<Rightarrow> error + bool" where
  "is_zipfile f p =
     (case read_file f p of
        Inl e \<Rightarrow> Inr False
      | Inr d \<Rightarrow> EndRecData d)"

section \<open>Archive expansion\<close>

text \<open>\<^verbatim>\<open>zip_ref.extractall(extracted_path)\<close>: the members are written one after the
  other, each with the directories it needs; then the error that stopped the
  extraction, if there is one, is raised.\<close>

fun write_members :: "path \<Rightarrow> member list \<Rightarrow> state \<Rightarrow> result" where
  "write_members dest [] st = Inr st"
| "write_members dest (Member_dir p # ms) st =
     (case makedirs (dest @ p) st of
        Inl e \<Rightarrow> Inl e
      | Inr st1 \<Rightarrow> write_members dest ms st1)"
| "write_members dest (Member_file p d # ms) st =
     (case makedirs (dest @ butlast p) st of
        Inl e \<Rightarrow> Inl e
      | Inr st1 \<Rightarrow>
          (case write_file (dest @ p) d st1 of
             Inl e \<Rightarrow> Inl e
           | Inr st2 \<Rightarrow> write_members dest ms st2))"

definition extractall :: "env \<Rightarrow> path \<Rightarrow> path \<Rightarrow> state \<Rightarrow> result" where
  "extractall env file_path dest st =
     (case read_file (fs st) file_path of
        Inl e \<Rightarrow> Inl (e, st)
      | Inr content \<Rightarrow>
          (case write_members dest (fst (env_unzip env content)) st of
             Inl e \<Rightarrow> Inl e
           | Inr st1 \<Rightarrow>
               (case snd (env_unzip env content) of
                  Some m \<Rightarrow> Inl (ExpandFailure m, st1)
                | None \<Rightarrow> Inr st1)))"

section \<open>Uploading the members\<close>

text \<open>The directories that \<^verbatim>\<open>os.walk(top)\<close> visits, in its (top-down) order. The loop
  body only removes regular files, so the directories are those present when the walk
  starts; the files of each directory are listed when the walk reaches it.\<close>

definition max_depth :: "filesystem \<Rightarrow> nat" where
  "max_depth f = foldr (\<lambda>p m. max (length p) m) (dirs f) 0"

function walk_dirs :: "filesystem \<Rightarrow> path \<Rightarrow> path list" where
  "walk_dirs f dir =
     (if \<not> is_dir f dir then []
      else dir # concat (map (\<lambda>d. walk_dirs f (dir @ [d])) (listdir_dirs f dir)))"
  by pat_completeness auto

lemma length_le_max_depth:
  "p \<in> set ps \<Longrightarrow> length p \<le> foldr (\<lambda>p m. max (length p) m) ps 0"
  by (induction ps) auto

lemma listdir_dirs_depth:
  assumes "d \<in> set (listdir_dirs f dir)"
  shows "length dir < max_depth f"
proof -
  from assms obtain p where p: "p \<in> set (dirs f)" "p \<noteq> []" "butlast p = dir"
    by (auto simp: listdir_dirs_def)
  then have "length p = Suc (length dir)" by (cases p rule: rev_cases) auto
  with length_le_max_depth [OF p(1)] show ?thesis by (simp add: max_depth_def)
qed

termination walk_dirs
proof (relation "measure (\<lambda>(f, dir). Suc (max_depth f) - length dir)")
  show "wf (measure (\<lambda>(f, dir). Suc (max_depth f) - length dir))" by simp
next
  fix f dir d
  assume "\<not> \<not> is_dir f dir" "d \<in> set (listdir_dirs f dir)"
  then have "length dir < max_depth f" by (simp add: listdir_dirs_depth)
  then show "((f, dir @ [d]), (f, dir)) \<in> measure (\<lambda>(f, dir). Suc (max_depth f) - length dir)"
    by simp
qed

declare walk_dirs.simps [simp del]

text \<open>\<^verbatim>\<open>f"Extracted file: {file}"\<close>\<close>

definition member_caption :: "string \<Rightarrow> string" where
  "member_caption file = ''Extracted file: '' @ file"

text \<open>The inner loop \<^verbatim>\<open>for file in files\<close>: send, then remove.\<close>

fun upload_files :: "env \<Rightarrow> path \<Rightarrow> string list \<Rightarrow> state \<Rightarrow> result" where
  "upload_files env dir [] st = Inr st"
| "upload_files env dir (file # rest) st =
     (case send_document env (dir @ [file]) (member_caption file) st of
        Inl e \<Rightarrow> Inl e
      | Inr st1 \<Rightarrow>
          (case os_remove (dir @ [file]) st1 of
             Inl e \<Rightarrow> Inl e
           | Inr st2 \<Rightarrow> upload_files env dir rest st2))"

text \<open>The outer loop \<^verbatim>\<open>for root, _, files in os.walk(extracted_path)\<close>.\<close>

fun upload_roots :: "env \<Rightarrow> path list \<Rightarrow> state \<Rightarrow> result" where
  "upload_roots env [] st = Inr st"
| "upload_roots env (dir # ds) st =
     (case upload_files env dir (listdir_files (fs st) dir) st of
        Inl e \<Rightarrow> Inl e
      | Inr st1 \<Rightarrow> upload_roots env ds st1)"

section \<open>The pipeline\<close>

definition dest_path :: path where
  "dest_path = [''downloads'']"

definition extracted_path :: path where
  "extracted_path = dest_path @ [''extracted'']"

text \<open>The caption of the single upload: a heart (U+2764 U+FE0F, in UTF-8) and the
  credit.\<close>

definition single_caption :: string where
  "single_caption =
     [CHR 0xE2, CHR 0x9D, CHR 0xA4, CHR 0xEF, CHR 0xB8, CHR 0x8F] @ '' Created by @NT_BOT_CHANNEL''"

definition edit_text :: "status_text \<Rightarrow> state \<Rightarrow> state" where
  "edit_text t st = st\<lparr>trace := trace st @ [EditText t]\<rparr>"

definition reply :: "status_text \<Rightarrow> state \<Rightarrow> state" where
  "reply t st = st\<lparr>trace := trace st @ [Reply t]\<rparr>"

text \<open>The \<^verbatim>\<open>if zipfile.is_zipfile(file_path)\<close> branch (lines 174 to 193). Its first
  part, the expansion (lines 174 to 178):\<close>

definition expand :: "env \<Rightarrow> path \<Rightarrow> state \<Rightarrow> result" where
  "expand env file_path st =
     (case makedirs extracted_path st of
        Inl e \<Rightarrow> Inl e
      | Inr st1 \<Rightarrow> extractall env file_path extracted_path st1)"

definition process_archive :: "env \<Rightarrow> path \<Rightarrow> state \<Rightarrow> result" where
  "process_archive env file_path st =
     (case expand env file_path st of
        Inl e \<Rightarrow> Inl e
      | Inr st2 \<Rightarrow>
          (case os_remove file_path st2 of
             Inl e \<Rightarrow> Inl e
           | Inr st3 \<Rightarrow>
               (case upload_roots env (walk_dirs (fs st3) extracted_path)
                       (edit_text Uploading_extracted st3) of
                  Inl e \<Rightarrow> Inl e
                | Inr st4 \<Rightarrow> os_rmdir extracted_path st4)))"

text \<open>The \<^verbatim>\<open>else\<close> branch (lines 195 to 204).\<close>

definition process_plain :: "env \<Rightarrow> path \<Rightarrow> state \<Rightarrow> result" where
  "process_plain env file_path st =
     (case getsize (fs st) file_path of
        Inl e \<Rightarrow> Inl (e, st)
      | Inr n \<Rightarrow>
          if n > 2 * 1024 * 1024 * 1024 then split_and_upload env file_path st
          else
            (case send_document env file_path single_caption (edit_text Uploading_file st) of
               Inl e \<Rightarrow> Inl e
             | Inr st1 \<Rightarrow> os_remove file_path st1))"

definition process_fetched :: "env \<Rightarrow> path \<Rightarrow> state \<Rightarrow> result" where
  "process_fetched env file_path st =
     (case is_zipfile (fs st) file_path of
        Inl e \<Rightarrow> Inl (e, st)
      | Inr True \<Rightarrow> process_archive env file_path st
      | Inr False \<Rightarrow> process_plain env file_path st)"

text \<open>\<^verbatim>\<open>mega_client.download_url(mega_link, dest_path=dest_path)\<close>: the file is stored
  under \<^verbatim>\<open>downloads/\<close> and its path returned.\<close>

definition fetch :: "env \<Rightarrow> string \<Rightarrow> state \<Rightarrow> (error \<times> state) + (path \<times> state)" where
  "fetch env mega_link st =
     (case env_download env mega_link of
        Inl m \<Rightarrow> Inl (DownloadFailure m, st)
      | Inr (name, content) \<Rightarrow>
          (case write_file (dest_path @ [name]) content st of
             Inl e \<Rightarrow> Inl e
           | Inr st1 \<Rightarrow> Inr (dest_path @ [name], st1)))"

text \<open>How a job ends. \<open>Crashed\<close>: an exception left the handler (the \<^verbatim>\<open>makedirs\<close> of
  line 162 is outside the \<^verbatim>\<open>try\<close>).\<close>

datatype outcome = No_link | Rejected_folder | Completed | Failed error | Crashed error

text \<open>The \<^verbatim>\<open>except Exception as e\<close> block.\<close>

definition handler :: "error \<times> state \<Rightarrow> outcome \<times> state" where
  "handler x =
     (case x of (e, st) \<Rightarrow>
        (Failed e, st\<lparr>trace := trace st @ [LogError (str_of e), EditText (Error_occurred (str_of e))]\<rparr>))"

text \<open>The body of the \<^verbatim>\<open>try\<close> after the fetch: monitor, classify, relay. Within a job
  nothing else writes the file, so every look of the monitor sees the same file
  system.\<close>

definition after_fetch :: "env \<Rightarrow> path \<Rightarrow> state \<Rightarrow> (outcome \<times> state) option" where
  "after_fetch env file_path st =
     (case update_progress env (\<lambda>q. observe (fs st) file_path) file_path ''Download'' of
        None \<Rightarrow> None
      | Some (Some e, evs) \<Rightarrow> Some (handler (e, st\<lparr>trace := trace st @ evs\<rparr>))
      | Some (None, evs) \<Rightarrow>
          (case process_fetched env file_path (st\<lparr>trace := trace st @ evs\<rparr>) of
             Inl x \<Rightarrow> Some (handler x)
           | Inr st1 \<Rightarrow> Some (Completed, edit_text (Task_completed (env_elapsed env)) st1)))"

text \<open>\<^verbatim>\<open>download_file(client, message)\<close> on a message with text \<open>message_text\<close>. \<open>None\<close>: the
  handler does not return.\<close>

definition download_file :: "env \<Rightarrow> string \<Rightarrow> state \<Rightarrow> (outcome \<times> state) option" where
  "download_file env message_text st =
     (case re_search message_text of
        None \<Rightarrow> Some (No_link, reply No_valid_link st)
      | Some (kind, mega_link) \<Rightarrow>
          if is_substring ''folder'' mega_link
          then Some (Rejected_folder, reply Folder_unsupported st)
          else
            (case makedirs dest_path st of
               Inl (e, st') \<Rightarrow> Some (Crashed e, st')
             | Inr st1 \<Rightarrow>
                 (case fetch env mega_link (reply Starting_download st1) of
                    Inl x \<Rightarrow> Some (handler x)
                  | Inr (file_path, st2) \<Rightarrow> after_fetch env file_path st2)))"

section \<open>Reading a job's events\<close>

text \<open>Every successful upload is followed at once by the removal of the file that was
  uploaded.\<close>

fun well_paired :: "event list \<Rightarrow> bool" where
  "well_paired [] = True"
| "well_paired (Sent p c d # Removed q # es) = (p = q \<and> well_paired es)"
| "well_paired (Sent p c d # es) = False"
| "well_paired (e # es) = well_paired es"

fun is_send_failed :: "event \<Rightarrow> bool" where
  "is_send_failed (SendFailed p c) = True"
| "is_send_failed e = False"

fun is_sent :: "event \<Rightarrow> bool" where
  "is_sent (Sent p c d) = True"
| "is_sent e = False"

definition no_failed :: "event list \<Rightarrow> bool" where
  "no_failed evs = (filter is_send_failed evs = [])"

definition no_sent :: "event list \<Rightarrow> bool" where
  "no_sent evs = (filter is_sent evs = [])"

fun is_upload_failure :: "error \<Rightarrow> bool" where
  "is_upload_failure (UploadFailure m) = True"
| "is_upload_failure e = False"

text \<open>
  How a run that has produced the events \<open>evs\<close> may have ended: if it returned, or
  raised something other than an upload failure, no upload has failed; if it raised an
  upload failure, the failed upload is the last event. In each case the uploads that
  succeeded are paired with their removals.
\<close>

definition outcome_ok :: "result \<Rightarrow> event list \<Rightarrow> bool" where
  "outcome_ok r evs =
     (case r of
        Inr st' \<Rightarrow> well_paired evs \<and> no_failed evs
      | Inl (e, st') \<Rightarrow>
          if is_upload_failure e
          then (\<exists>pre p c. evs = pre @ [SendFailed p c] \<and> well_paired pre \<and> no_failed pre)
          else well_paired evs \<and> no_failed evs)"

definition run_ok :: "state \<Rightarrow> result \<Rightarrow> bool" where
  "run_ok st r = (\<exists>evs. trace (final_state r) = trace st @ evs \<and> outcome_ok r evs)"

section \<open>Concrete inputs\<close>

text \<open>A small environment and state on which the definitions are run: every
  collaborator succeeds, and \<^verbatim>\<open>downloads/f\<close> holds five bytes.\<close>

definition demo_env :: env where
  "demo_env =
     \<lparr>env_download = (\<lambda>l. Inr (''a.bin'', ''hello'')),
      env_unzip = (\<lambda>d. ([], None)),
      env_send_raises = (\<lambda>t p c. None),
      env_edit_raises = (\<lambda>n. False),
      env_elapsed = 1\<rparr>"

definition demo_state :: state where
  "demo_state =
     \<lparr>fs = \<lparr>files = [([''downloads'', ''f''], ''abcde'')], dirs = [[''downloads'']]\<rparr>,
      trace = []\<rparr>"

text \<open>The state in which splitting \<open>demo_state\<close>'s file with chunk size 2 ends.\<close>

definition demo_split_state :: state where
  "demo_split_state =
     demo_state\<lparr>trace :=
       [EditText Splitting_notice,
        Wrote [''downloads'', ''f.part0''] ''ab'',
        Sent [''downloads'', ''f.part0''] ''Part 1/3 of f'' ''ab'',
        Removed [''downloads'', ''f.part0''],
        Wrote [''downloads'', ''f.part1''] ''cd'',
        Sent [''downloads'', ''f.part1''] ''Part 2/3 of f'' ''cd'',
        Removed [''downloads'', ''f.part1''],
        Wrote [''downloads'', ''f.part2''] ''e'',
        Sent [''downloads'', ''f.part2''] ''Part 3/3 of f'' ''e'',
        Removed [''downloads'', ''f.part2'']]\<rparr>"

text \<open>The texts of the status edits attempted, whether they went through or not.\<close>

fun progress_updates :: "event list \<Rightarrow> status_text list" where
  "progress_updates [] = []"
| "progress_updates (EditText t # es) = t # progress_updates es"
| "progress_updates (EditFailed t # es) = t # progress_updates es"
| "progress_updates (e # es) = progress_updates es"

section \<open>Properties\<close>

subsection \<open>Arithmetic of the chunk count\<close>

lemma ceil_step:
  fixes c n :: nat
  assumes "0 < c" "c \<le> n"
  shows "(n + c - 1) div c = Suc ((n - c + c - 1) div c)"
proof -
  from assms have a: "n - c + c = n" by arith
  from assms have b: "n + c - 1 = (n - 1) + c" by arith
  have "((n - 1) + c) div c = Suc ((n - 1) div c)"
    using assms(1) by simp
  with a b show ?thesis by (simp only:)
qed

lemma ceil_small:
  fixes c n :: nat
  assumes "0 < n" "n < c"
  shows "(n + c - 1) div c = 1"
proof -
  from assms have "c * 1 \<le> n + c - 1" "n + c - 1 < c * Suc 1" by simp_all
  then show ?thesis by (rule div_nat_eqI)
qed

subsection \<open>The chunks read\<close>

lemma read_chunks_Nil: "take c rest = [] \<Longrightarrow> read_chunks c rest = []"
  by (subst read_chunks.simps) simp

lemma read_chunks_Cons:
  "take c rest \<noteq> [] \<Longrightarrow> read_chunks c rest = take c rest # read_chunks c (drop c rest)"
  by (subst read_chunks.simps) simp

lemma concat_read_chunks: "0 < c \<Longrightarrow> concat (read_chunks c rest) = rest"
proof (induction c rest rule: read_chunks.induct)
  case (1 c rest)
  show ?case
  proof (cases "take c rest = []")
    case True
    with "1.prems" have "rest = []" by simp
    then show ?thesis by (simp add: read_chunks_Nil)
  next
    case False
    with 1 have "concat (read_chunks c (drop c rest)) = drop c rest" by simp
    with False show ?thesis by (simp add: read_chunks_Cons)
  qed
qed

lemma length_read_chunks:
  "0 < c \<Longrightarrow> length (read_chunks c rest) = (length rest + c - 1) div c"
proof (induction c rest rule: read_chunks.induct)
  case (1 c rest)
  show ?case
  proof (cases "take c rest = []")
    case True
    with "1.prems" have "rest = []" by simp
    with "1.prems" show ?thesis by (simp add: read_chunks_Nil)
  next
    case False
    note eq = read_chunks_Cons [OF False]
    from False 1
    have ih: "length (read_chunks c (drop c rest)) = (length (drop c rest) + c - 1) div c"
      by simp
    from False have ne: "0 < length rest" by auto
    show ?thesis
    proof (cases "c \<le> length rest")
      case True
      from ceil_step [OF "1.prems" True] ih show ?thesis
        unfolding eq by simp
    next
      case False
      then have lt: "length rest < c" by simp
      then have "read_chunks c (drop c rest) = []"
        by (simp add: read_chunks_Nil)
      with ceil_small [OF ne lt] show ?thesis unfolding eq by simp
    qed
  qed
qed

lemma read_chunks_full:
  "Suc i < length (read_chunks c rest) \<Longrightarrow> length (read_chunks c rest ! i) = c"
proof (induction c rest arbitrary: i rule: read_chunks.induct)
  case (1 c rest)
  show ?case
  proof (cases "take c rest = []")
    case True
    with "1.prems" show ?thesis by (simp add: read_chunks_Nil)
  next
    case False
    note eq = read_chunks_Cons [OF False]
    show ?thesis
    proof (cases i)
      case 0
      with "1.prems" eq have ne: "read_chunks c (drop c rest) \<noteq> []" by auto
      have "c < length rest"
      proof (rule ccontr)
        assume "\<not> c < length rest"
        then have "read_chunks c (drop c rest) = []" by (simp add: read_chunks_Nil)
        with ne show False by simp
      qed
      with 0 eq show ?thesis by simp
    next
      case (Suc j)
      with "1.prems" eq have "Suc j < length (read_chunks c (drop c rest))" by simp
      with "1.IH" False have "length (read_chunks c (drop c rest) ! j) = c" by blast
      with Suc eq show ?thesis by simp
    qed
  qed
qed

subsection \<open>What each step does to the state\<close>

lemma map_of_update_file_same: "map_of (update_file p d l) p = Some d"
  by (induction l) auto

lemma map_of_update_file_other: "q \<noteq> p \<Longrightarrow> map_of (update_file p d l) q = map_of l q"
  by (induction l) auto

lemma write_file_Inr:
  assumes "write_file p d st = Inr st1"
  shows "trace st1 = trace st @ [Wrote p d]" and "read_file (fs st1) p = Inr d"
    and "dirs (fs st1) = dirs (fs st)"
  using assms
  by (auto simp: write_file_def read_file_def map_of_update_file_same split: if_splits)

lemma write_file_Inl: "write_file p d st = Inl (e, st') \<Longrightarrow> st' = st"
  by (auto simp: write_file_def split: if_splits)

lemma send_document_Inr:
  assumes "send_document env p cap st = Inr st1"
  shows "\<exists>d. read_file (fs st) p = Inr d \<and> trace st1 = trace st @ [Sent p cap d]"
    and "fs st1 = fs st"
  using assms
  by (auto simp: send_document_def split: sum.splits option.splits)

lemma send_document_Inl:
  assumes "send_document env p cap st = Inl (e, st')"
  shows "fs st' = fs st"
    and "trace st' = trace st \<or> trace st' = trace st @ [SendFailed p cap]"
  using assms
  by (auto simp: send_document_def split: sum.splits option.splits)

lemma os_remove_Inr:
  assumes "os_remove p st = Inr st1"
  shows "trace st1 = trace st @ [Removed p]" and "dirs (fs st1) = dirs (fs st)"
    and "map_of (files (fs st1)) p = None"
  using assms
  by (auto simp: os_remove_def map_of_eq_None_iff split: if_splits)

lemma os_remove_Inl: "os_remove p st = Inl (e, st') \<Longrightarrow> st' = st"
  by (auto simp: os_remove_def split: if_splits)

lemma sent_payloads_append: "sent_payloads (xs @ ys) = sent_payloads xs @ sent_payloads ys"
  by (induction xs rule: sent_payloads.induct) auto

lemma sent_captions_append: "sent_captions (xs @ ys) = sent_captions xs @ sent_captions ys"
  by (induction xs rule: sent_captions.induct) auto

lemma sent_paths_append: "sent_paths (xs @ ys) = sent_paths xs @ sent_paths ys"
  by (induction xs rule: sent_paths.induct) auto

subsection \<open>The chunk splitter\<close>

lemma split_loop_events:
  "\<exists>evs. trace (final_state (split_loop env c file_path file_size base_name rest i st))
            = trace st @ evs
      \<and> (\<exists>k. sent_payloads evs = take k (read_chunks c rest))
      \<and> (\<forall>st'. split_loop env c file_path file_size base_name rest i st = Inr st'
            \<longrightarrow> sent_payloads evs = read_chunks c rest)"
proof (induction env c file_path file_size base_name rest i st rule: split_loop.induct)
  case (1 env c file_path file_size base_name rest i st)
  let ?p = "part_path file_path i"
  let ?cap = "part_caption c i file_size base_name"
  let ?r = "split_loop env c file_path file_size base_name rest i st"
  show ?case
  proof (cases "take c rest = []")
    case True
    then have "?r = Inr st" by (subst split_loop.simps) simp
    with True show ?thesis by (simp add: final_state_def read_chunks_Nil)
  next
    case ne: False
    note chunks = read_chunks_Cons [OF ne]
    show ?thesis
    proof (cases "write_file ?p (take c rest) st")
      case (Inl x)
      obtain e st' where x: "x = (e, st')" by (cases x)
      with Inl ne have "?r = Inl (e, st')" by (subst split_loop.simps) simp
      moreover from Inl x have "st' = st" by (simp add: write_file_Inl)
      ultimately have "trace (final_state ?r) = trace st @ []"
        and "\<forall>st'. ?r \<noteq> Inr st'"
        by (simp_all add: final_state_def)
      moreover have "sent_payloads [] = take 0 (read_chunks c rest)" by simp
      ultimately show ?thesis by blast
    next
      case w: (Inr st1)
      note w1 = write_file_Inr [OF w]
      show ?thesis
      proof (cases "send_document env ?p ?cap st1")
        case (Inl x)
        obtain e st' where x: "x = (e, st')" by (cases x)
        with Inl w ne have r: "?r = Inl (e, st')" by (subst split_loop.simps) simp
        from Inl x have "trace st' = trace st1 \<or> trace st' = trace st1 @ [SendFailed ?p ?cap]"
          by (simp add: send_document_Inl)
        with w1(1) have "trace st' = trace st @ [Wrote ?p (take c rest)]
            \<or> trace st' = trace st @ [Wrote ?p (take c rest), SendFailed ?p ?cap]"
          by auto
        then obtain evs where "trace st' = trace st @ evs" "sent_payloads evs = []"
          by auto
        with r have "trace (final_state ?r) = trace st @ evs"
          and "sent_payloads evs = take 0 (read_chunks c rest)"
          and "\<forall>st'. ?r \<noteq> Inr st'"
          by (simp_all add: final_state_def)
        then show ?thesis by blast
      next
        case s: (Inr st2)
        from send_document_Inr(1) [OF s] w1(2)
        have t2: "trace st2 = trace st1 @ [Sent ?p ?cap (take c rest)]" by auto
        show ?thesis
        proof (cases "os_remove ?p st2")
          case (Inl x)
          obtain e st' where x: "x = (e, st')" by (cases x)
          with Inl s w ne have r: "?r = Inl (e, st')" by (subst split_loop.simps) simp
          from Inl x have "st' = st2" by (simp add: os_remove_Inl)
          with t2 w1(1) r
          have "trace (final_state ?r)
                  = trace st @ [Wrote ?p (take c rest), Sent ?p ?cap (take c rest)]"
            by (simp add: final_state_def)
          moreover have "sent_payloads [Wrote ?p (take c rest), Sent ?p ?cap (take c rest)]
                  = take 1 (read_chunks c rest)"
            by (simp add: chunks)
          moreover from r have "\<forall>st'. ?r \<noteq> Inr st'" by simp
          ultimately show ?thesis by blast
        next
          case rm: (Inr st3)
          let ?r' = "split_loop env c file_path file_size base_name (drop c rest) (i + 1) st3"
          from rm s w ne have r: "?r = ?r'" by (subst split_loop.simps) simp
          from os_remove_Inr(1) [OF rm] t2 w1(1)
          have t3: "trace st3
                  = trace st @ [Wrote ?p (take c rest), Sent ?p ?cap (take c rest), Removed ?p]"
            by simp
          from "1.IH" [OF ne w s rm]
          obtain evs k where ih: "trace (final_state ?r') = trace st3 @ evs"
            "sent_payloads evs = take k (read_chunks c (drop c rest))"
            "\<forall>st'. ?r' = Inr st' \<longrightarrow> sent_payloads evs = read_chunks c (drop c rest)"
            by blast
          let ?evs = "[Wrote ?p (take c rest), Sent ?p ?cap (take c rest), Removed ?p] @ evs"
          from ih(1) t3 r have "trace (final_state ?r) = trace st @ ?evs" by simp
          moreover from ih(2) have "sent_payloads ?evs = take (Suc k) (read_chunks c rest)"
            by (simp add: chunks)
          moreover from ih(3) r
          have "\<forall>st'. ?r = Inr st' \<longrightarrow> sent_payloads ?evs = read_chunks c rest"
            by (simp add: chunks)
          ultimately show ?thesis by blast
        qed
      qed
    qed
  qed
qed

lemma new_events_append: "trace st' = trace st @ evs \<Longrightarrow> new_events st st' = evs"
  by (simp add: new_events_def)

lemma split_with_Inr_events:
  assumes "read_file (fs st) file_path = Inr content"
    and "split_with c env file_path st = Inr st'"
  shows "\<exists>evs. new_events st st' = EditText Splitting_notice # evs
           \<and> sent_payloads evs = read_chunks c content"
proof -
  let ?st1 = "st\<lparr>trace := trace st @ [EditText Splitting_notice]\<rparr>"
  from assms(1) obtain n where n: "getsize (fs st) file_path = Inr n"
    by (auto simp: read_file_def getsize_def split: option.splits if_splits)
  with assms have loop: "split_loop env c file_path n (basename file_path) content 0 ?st1 = Inr st'"
    by (simp add: split_with_def)
  from split_loop_events [of env c file_path n "basename file_path" content 0 ?st1] loop
  obtain evs where "trace st' = trace ?st1 @ evs" "sent_payloads evs = read_chunks c content"
    by (auto simp: final_state_def)
  then have "new_events st st' = EditText Splitting_notice # evs"
    by (simp add: new_events_def)
  with \<open>sent_payloads evs = read_chunks c content\<close> show ?thesis by blast
qed

lemma split_loop_Inr_captions:
  "split_loop env c file_path file_size base_name rest i st = Inr st' \<Longrightarrow>
     \<exists>evs. trace st' = trace st @ evs
       \<and> sent_captions evs
           = map (\<lambda>j. part_caption c j file_size base_name) [i ..< i + length (read_chunks c rest)]
       \<and> sent_paths evs = map (part_path file_path) [i ..< i + length (read_chunks c rest)]"
proof (induction env c file_path file_size base_name rest i st rule: split_loop.induct)
  case (1 env c file_path file_size base_name rest i st)
  let ?p = "part_path file_path i"
  let ?cap = "part_caption c i file_size base_name"
  show ?case
  proof (cases "take c rest = []")
    case True
    with "1.prems" have "st' = st" by (subst (asm) split_loop.simps) simp
    with True show ?thesis by (simp add: read_chunks_Nil)
  next
    case ne: False
    note chunks = read_chunks_Cons [OF ne]
    from "1.prems" ne obtain st1 st2 st3
      where w: "write_file ?p (take c rest) st = Inr st1"
        and s: "send_document env ?p ?cap st1 = Inr st2"
        and rm: "os_remove ?p st2 = Inr st3"
        and r: "split_loop env c file_path file_size base_name (drop c rest) (i + 1) st3 = Inr st'"
      by (subst (asm) split_loop.simps) (auto split: sum.splits)
    from send_document_Inr(1) [OF s] obtain d
      where t2: "trace st2 = trace st1 @ [Sent ?p ?cap d]" by blast
    from os_remove_Inr(1) [OF rm] t2 write_file_Inr(1) [OF w]
    have t3: "trace st3 = trace st @ [Wrote ?p (take c rest), Sent ?p ?cap d, Removed ?p]"
      by simp
    let ?n = "length (read_chunks c (drop c rest))"
    from "1.IH" [OF ne w s rm r]
    obtain evs where ih: "trace st' = trace st3 @ evs"
      "sent_captions evs = map (\<lambda>j. part_caption c j file_size base_name) [i + 1 ..< i + 1 + ?n]"
      "sent_paths evs = map (part_path file_path) [i + 1 ..< i + 1 + ?n]"
      by blast
    let ?evs = "[Wrote ?p (take c rest), Sent ?p ?cap d, Removed ?p] @ evs"
    have "[i ..< i + Suc ?n] = i # [Suc i ..< i + Suc ?n]"
      by (rule upt_conv_Cons) simp
    then have upt: "[i ..< i + length (read_chunks c rest)] = i # [i + 1 ..< i + 1 + ?n]"
      by (simp add: chunks)
    from ih(1) t3 have "trace st' = trace st @ ?evs" by simp
    moreover from ih(2) have "sent_captions ?evs
        = map (\<lambda>j. part_caption c j file_size base_name) [i ..< i + length (read_chunks c rest)]"
      unfolding upt by simp
    moreover from ih(3) have "sent_paths ?evs
        = map (part_path file_path) [i ..< i + length (read_chunks c rest)]"
      unfolding upt by simp
    ultimately show ?thesis by blast
  qed
qed

lemma split_with_Inr_captions:
  assumes "read_file (fs st) file_path = Inr content"
    and "split_with c env file_path st = Inr st'"
  shows "sent_captions (new_events st st')
           = map (\<lambda>j. part_caption c j (length content) (basename file_path))
               [0 ..< length (read_chunks c content)]"
    and "sent_paths (new_events st st')
           = map (part_path file_path) [0 ..< length (read_chunks c content)]"
proof -
  let ?st1 = "st\<lparr>trace := trace st @ [EditText Splitting_notice]\<rparr>"
  from assms(1) have n: "getsize (fs st) file_path = Inr (length content)"
    by (auto simp: read_file_def getsize_def split: option.splits if_splits)
  with assms
  have "split_loop env c file_path (length content) (basename file_path) content 0 ?st1 = Inr st'"
    by (simp add: split_with_def)
  from split_loop_Inr_captions [OF this]
  obtain evs where evs: "trace st' = trace ?st1 @ evs"
    "sent_captions evs = map (\<lambda>j. part_caption c j (length content) (basename file_path))
               [0 ..< length (read_chunks c content)]"
    "sent_paths evs = map (part_path file_path) [0 ..< length (read_chunks c content)]"
    by auto
  from evs(1) have ne: "new_events st st' = EditText Splitting_notice # evs"
    by (simp add: new_events_def)
  from ne evs(2) show "sent_captions (new_events st st')
           = map (\<lambda>j. part_caption c j (length content) (basename file_path))
               [0 ..< length (read_chunks c content)]" by simp
  from ne evs(3) show "sent_paths (new_events st st')
           = map (part_path file_path) [0 ..< length (read_chunks c content)]" by simp
qed

subsection \<open>The progress monitor\<close>

lemma progress_loop_done:
  assumes "obs q = Some s" and "obs (q + 1) = Some current_size" and "file_size \<le> current_size"
  shows "progress_loop env obs file_path task_type file_size q n evs
           = Some (None, evs @ edit_swallowed env n (progress_text task_type current_size file_size))"
  using assms by (subst progress_loop.simps) simp

subsection \<open>Runs and their events\<close>

lemma well_paired_append: "well_paired xs \<Longrightarrow> well_paired (xs @ ys) = well_paired ys"
  by (induction xs rule: well_paired.induct) auto

lemma no_failed_append: "no_failed (xs @ ys) = (no_failed xs \<and> no_failed ys)"
  by (simp add: no_failed_def)

lemma run_ok_Inr:
  "trace st' = trace st @ evs \<Longrightarrow> well_paired evs \<Longrightarrow> no_failed evs \<Longrightarrow> run_ok st (Inr st')"
  by (auto simp: run_ok_def outcome_ok_def final_state_def)

lemma run_ok_Inl_other:
  "trace st' = trace st @ evs \<Longrightarrow> well_paired evs \<Longrightarrow> no_failed evs
     \<Longrightarrow> \<not> is_upload_failure e \<Longrightarrow> run_ok st (Inl (e, st'))"
  by (auto simp: run_ok_def outcome_ok_def final_state_def)

lemma run_ok_Inl_upload:
  "trace st' = trace st @ pre @ [SendFailed p c] \<Longrightarrow> well_paired pre \<Longrightarrow> no_failed pre
     \<Longrightarrow> run_ok st (Inl (UploadFailure m, st'))"
  by (auto simp: run_ok_def outcome_ok_def final_state_def)

lemma run_ok_same: "\<not> is_upload_failure e \<Longrightarrow> run_ok st (Inl (e, st))"
  by (rule run_ok_Inl_other [where evs = "[]"]) (simp_all add: no_failed_def)

lemma run_ok_step:
  assumes "trace st1 = trace st @ evs1" and "well_paired evs1" and "no_failed evs1"
    and "run_ok st1 r"
  shows "run_ok st r"
proof -
  from assms(4) obtain evs2 where t: "trace (final_state r) = trace st1 @ evs2"
    and ok: "outcome_ok r evs2"
    by (auto simp: run_ok_def)
  from t assms(1) have t': "trace (final_state r) = trace st @ (evs1 @ evs2)" by simp
  have "outcome_ok r (evs1 @ evs2)"
  proof (cases r)
    case (Inr st')
    with ok assms(2,3) show ?thesis
      by (simp add: outcome_ok_def well_paired_append no_failed_append)
  next
    case (Inl x)
    obtain e st' where x: "x = (e, st')" by (cases x)
    show ?thesis
    proof (cases "is_upload_failure e")
      case False
      with ok Inl x assms(2,3) show ?thesis
        by (simp add: outcome_ok_def well_paired_append no_failed_append)
    next
      case True
      with ok Inl x obtain pre p c where pre: "evs2 = pre @ [SendFailed p c]"
        "well_paired pre" "no_failed pre"
        by (auto simp: outcome_ok_def)
      then have "evs1 @ evs2 = (evs1 @ pre) @ [SendFailed p c]"
        "well_paired (evs1 @ pre)" "no_failed (evs1 @ pre)"
        using assms(2,3) by (simp_all add: well_paired_append no_failed_append)
      with True Inl x show ?thesis
        by (auto simp: outcome_ok_def)
    qed
  qed
  with t' show ?thesis unfolding run_ok_def by blast
qed

lemma run_ok_write_file: "run_ok st (write_file p d st)"
proof (cases "write_file p d st")
  case (Inl x)
  then show ?thesis
    by (auto simp: write_file_def split: if_splits intro: run_ok_same)
next
  case (Inr st1)
  from write_file_Inr(1) [OF Inr] show ?thesis unfolding Inr
    by (rule run_ok_Inr) (simp_all add: no_failed_def)
qed

lemma run_ok_os_remove: "run_ok st (os_remove p st)"
proof (cases "os_remove p st")
  case (Inl x)
  then show ?thesis
    by (auto simp: os_remove_def split: if_splits intro: run_ok_same)
next
  case (Inr st1)
  from os_remove_Inr(1) [OF Inr] show ?thesis unfolding Inr
    by (rule run_ok_Inr) (simp_all add: no_failed_def)
qed

lemma run_ok_os_rmdir: "run_ok st (os_rmdir p st)"
  unfolding os_rmdir_def
  by (auto intro: run_ok_same run_ok_Inr [where evs = "[RemovedDir p]"] simp: no_failed_def)

lemma mkdirs_error: "mkdirs qs f = Inl e \<Longrightarrow> \<not> is_upload_failure e"
  by (induction qs f rule: mkdirs.induct) (auto split: if_splits)

lemma run_ok_makedirs: "run_ok st (makedirs p st)"
proof (cases "mkdirs (prefixes_of p) (fs st)")
  case (Inl e)
  with mkdirs_error [OF Inl] show ?thesis
    by (simp add: makedirs_def run_ok_same)
next
  case (Inr f)
  then show ?thesis
    by (auto simp: makedirs_def intro: run_ok_Inr [where evs = "[]"] simp: no_failed_def)
qed

text \<open>The three ways in which "send, then remove" can go.\<close>

lemma send_remove_cases:
  obtains (read_error) e where "send_document env p cap st = Inl (e, st)"
      and "\<not> is_upload_failure e"
  | (upload_error) m st' where "send_document env p cap st = Inl (UploadFailure m, st')"
      and "trace st' = trace st @ [SendFailed p cap]" and "fs st' = fs st"
      and "env_send_raises env (trace st) p cap = Some m"
  | (sent) d st1 st2 where "send_document env p cap st = Inr st1"
      and "os_remove p st1 = Inr st2"
      and "trace st2 = trace st @ [Sent p cap d, Removed p]"
      and "dirs (fs st2) = dirs (fs st)"
      and "read_file (fs st) p = Inr d"
      and "env_send_raises env (trace st) p cap = None"
proof (cases "read_file (fs st) p")
  case (Inl e)
  then have "send_document env p cap st = Inl (e, st)" "\<not> is_upload_failure e"
    by (auto simp: send_document_def read_file_def split: option.splits if_splits)
  then show ?thesis by (rule read_error)
next
  case (Inr d)
  show ?thesis
  proof (cases "env_send_raises env (trace st) p cap")
    case (Some m)
    with Inr have eq: "send_document env p cap st
        = Inl (UploadFailure m, st\<lparr>trace := trace st @ [SendFailed p cap]\<rparr>)"
      by (simp add: send_document_def)
    show ?thesis by (rule upload_error [OF eq]) (simp_all add: Some)
  next
    case None
    let ?st1 = "st\<lparr>trace := trace st @ [Sent p cap d]\<rparr>"
    from None Inr have s: "send_document env p cap st = Inr ?st1"
      by (simp add: send_document_def)
    from Inr have "is_file (fs ?st1) p"
      by (auto simp: is_file_def read_file_def split: option.splits if_splits)
    then obtain st2 where r: "os_remove p ?st1 = Inr st2"
      by (simp add: os_remove_def)
    from os_remove_Inr(1,2) [OF r]
    have "trace st2 = trace st @ [Sent p cap d, Removed p]" "dirs (fs st2) = dirs (fs st)"
      by simp_all
    then show ?thesis using Inr None by (intro sent [OF s r])
  qed
qed

lemma run_ok_split_loop: "run_ok st (split_loop env c file_path file_size base_name rest i st)"
proof (induction env c file_path file_size base_name rest i st rule: split_loop.induct)
  case (1 env c file_path file_size base_name rest i st)
  let ?p = "part_path file_path i"
  let ?cap = "part_caption c i file_size base_name"
  let ?r = "split_loop env c file_path file_size base_name rest i st"
  show ?case
  proof (cases "take c rest = []")
    case True
    then have "?r = Inr st" by (subst split_loop.simps) simp
    then show ?thesis by (simp add: run_ok_Inr [where evs = "[]"] no_failed_def)
  next
    case ne: False
    show ?thesis
    proof (cases "write_file ?p (take c rest) st")
      case (Inl x)
      with ne have "?r = write_file ?p (take c rest) st" by (subst split_loop.simps) simp
      then show ?thesis by (simp add: run_ok_write_file)
    next
      case w: (Inr st1)
      note w1 = write_file_Inr(1) [OF w]
      have inner: "run_ok st1 ?r"
      proof (cases rule: send_remove_cases [of env ?p ?cap st1])
        case (read_error e)
        with w ne have "?r = Inl (e, st1)" by (subst split_loop.simps) simp
        with read_error(2) show ?thesis by (simp add: run_ok_same)
      next
        case (upload_error m st')
        with w ne have "?r = Inl (UploadFailure m, st')" by (subst split_loop.simps) simp
        moreover from upload_error(2) have "trace st' = trace st1 @ [] @ [SendFailed ?p ?cap]"
          by simp
        ultimately show ?thesis
          by (simp add: run_ok_Inl_upload [where pre = "[]"] no_failed_def)
      next
        case (sent d st2 st3)
        with w ne
        have r: "?r = split_loop env c file_path file_size base_name (drop c rest) (i + 1) st3"
          by (subst split_loop.simps) simp
        from "1.IH" [OF ne w sent(1,2)]
        have ih: "run_ok st3
            (split_loop env c file_path file_size base_name (drop c rest) (i + 1) st3)" .
        show ?thesis unfolding r
          by (rule run_ok_step [OF sent(3) _ _ ih]) (simp_all add: no_failed_def)
      qed
      show ?thesis
        by (rule run_ok_step [OF w1 _ _ inner]) (simp_all add: no_failed_def)
    qed
  qed
qed

lemma demo_split:
  "split_with 2 demo_env [''downloads'', ''f''] demo_state = Inr demo_split_state"
  by code_simp

section \<open>C1: splitting and concatenating\<close>

text \<open>
  C1. A file with content \<open>content\<close> is split with chunk size \<open>c > 0\<close> (the source
  fixes \<open>c = chunk_size\<close>, 2 GiB). When the splitter returns, the payloads it has
  uploaded, in the order of their indices, concatenate to the file's content; there are
  \<open>\<lceil>S / c\<rceil>\<close> of them, \<open>S\<close> the file's size; and each but the last has length \<open>c\<close>.
\<close>

theorem split_round_trip:
  assumes "0 < c"
    and "read_file (fs st) file_path = Inr content"
    and "split_with c env file_path st = Inr st'"
  shows "concat (sent_payloads (new_events st st')) = content
       \<and> length (sent_payloads (new_events st st')) = (length content + c - 1) div c
       \<and> (\<forall>i. Suc i < length (sent_payloads (new_events st st'))
              \<longrightarrow> length (sent_payloads (new_events st st') ! i) = c)"
proof -
  from split_with_Inr_events [OF assms(2,3)]
  have "sent_payloads (new_events st st') = read_chunks c content" by auto
  with assms(1) show ?thesis
    by (simp add: concat_read_chunks length_read_chunks read_chunks_full)
qed

theorem split_round_trip_witness:
  "(0::nat) < 2
   \<and> read_file (fs demo_state) [''downloads'', ''f''] = Inr ''abcde''
   \<and> split_with 2 demo_env [''downloads'', ''f''] demo_state = Inr demo_split_state
   \<and> concat (sent_payloads (new_events demo_state demo_split_state)) = ''abcde''
   \<and> length (sent_payloads (new_events demo_state demo_split_state)) = 3
   \<and> sent_payloads (new_events demo_state demo_split_state) = [''ab'', ''cd'', ''e'']"
proof -
  have h1: "(0::nat) < 2" by simp
  have h2: "read_file (fs demo_state) [''downloads'', ''f''] = Inr ''abcde''"
    by (simp add: demo_state_def read_file_def)
  have h3: "sent_payloads (new_events demo_state demo_split_state) = [''ab'', ''cd'', ''e'']"
    by (simp add: new_events_def demo_state_def demo_split_state_def)
  from split_round_trip [OF h1 h2 demo_split] h1 h2 h3 demo_split show ?thesis by simp
qed

section \<open>C10: the monitor on a file that does not change\<close>

text \<open>
  C10. The monitor takes the size it finds when it is called as the expected final
  size. If every look finds the file with the same size \<open>s\<close>, the loop ends in its first
  round: the monitor returns without an error, has attempted exactly one status edit,
  showing 100 percent for a non-empty file and 0 percent for an empty one, and has not
  slept.
\<close>

theorem monitor_constant_size:
  assumes "\<forall>q. obs q = Some s"
  shows "\<exists>evs. update_progress env obs file_path task_type = Some (None, evs)
           \<and> progress_updates evs
               = [Progress task_type (if 0 < s then 100 else 0)
                    (s div (1024 * 1024)) (s div (1024 * 1024))]
           \<and> Sleep \<notin> set evs"
proof -
  from assms have o: "obs 0 = Some s" "obs 1 = Some s" "obs (1 + 1) = Some s" by simp_all
  have "progress_loop env obs file_path task_type s 1 0 []
          = Some (None, [] @ edit_swallowed env 0 (progress_text task_type s s))"
    by (rule progress_loop_done [OF o(2) o(3)]) simp
  with o(1) have "update_progress env obs file_path task_type
          = Some (None, edit_swallowed env 0 (progress_text task_type s s))"
    by (simp add: update_progress_def)
  moreover have "progress_updates (edit_swallowed env 0 (progress_text task_type s s))
          = [Progress task_type (if 0 < s then 100 else 0)
               (s div (1024 * 1024)) (s div (1024 * 1024))]"
    by (simp add: edit_swallowed_def progress_text_def progress_percentage_def)
  moreover have "Sleep \<notin> set (edit_swallowed env 0 (progress_text task_type s s))"
    by (simp add: edit_swallowed_def)
  ultimately show ?thesis by blast
qed

theorem monitor_constant_size_witness:
  "(\<forall>q. (\<lambda>q::nat. Some (5::nat)) q = Some 5)
   \<and> (\<exists>evs. update_progress demo_env (\<lambda>q. Some 5) [''downloads'', ''f''] ''Download''
               = Some (None, evs)
          \<and> progress_updates evs = [Progress ''Download'' 100 0 0]
          \<and> Sleep \<notin> set evs)"
  using monitor_constant_size [of "\<lambda>q. Some 5" 5 demo_env "[''downloads'', ''f'']" "''Download''"]
  by simp

end
